theory Spec2Isabelle
  imports Main
begin

unbundle bit_operations_syntax

section \<open>The Checker class\<close>

text \<open>
  A \<open>Checker\<close> object has one attribute, \<open>data\<close>, an unbounded Python integer laid out
  as \<open>KCXXXXYYYY\<close>.  Python's \<open><<\<close>, \<open>>>\<close>, \<open>&\<close> and \<open>|\<close> on integers are
  \<open>push_bit\<close>, \<open>drop_bit\<close>, \<open>AND\<close> and \<open>OR\<close> on \<open>int\<close>; a \<open>bool\<close> used as an
  integer is \<open>of_bool\<close>.
\<close>

record Checker =
  data :: int

definition Checker_init :: "bool \<Rightarrow> bool \<Rightarrow> int \<Rightarrow> int \<Rightarrow> Checker" where
  "Checker_init king is_red x_pos y_pos =
     (let x_pos = (if x_pos > 15 then 15 else x_pos);
          x_pos = (if x_pos < 0 then 0 else x_pos);
          y_pos = (if y_pos > 15 then 15 else y_pos);
          y_pos = (if y_pos < 0 then 0 else y_pos)
      in \<lparr>data = push_bit 9 (of_bool king) OR push_bit 8 (of_bool is_red)
                    OR push_bit 4 x_pos OR y_pos\<rparr>)"

definition is_king :: "Checker \<Rightarrow> bool" where
  "is_king c = (if drop_bit 9 (data c AND 512) = 1 then True else False)"

definition get_color :: "Checker \<Rightarrow> string" where
  "get_color c = (if drop_bit 8 (data c AND 256) = 1 then ''Red'' else ''Black'')"

definition get_x_pos :: "Checker \<Rightarrow> int" where
  "get_x_pos c = drop_bit 4 (data c AND 240)"

definition get_y_pos :: "Checker \<Rightarrow> int" where
  "get_y_pos c = data c AND 15"

text \<open>
  The canonical bit layout of the specification, as a function of the four decoded
  fields: bit 9 the king flag, bit 8 the colour flag (set for Red), bits 4 to 7 the
  column, bits 0 to 3 the row.
\<close>

definition canonical_code :: "bool \<Rightarrow> string \<Rightarrow> int \<Rightarrow> int \<Rightarrow> int" where
  "canonical_code king color column row =
     push_bit 9 (of_bool king) OR push_bit 8 (of_bool (color = ''Red''))
       OR push_bit 4 column OR row"

section \<open>The object store\<close>

text \<open>
  Checker objects are mutated in place and shared between the board's list and the
  caller, and \<open>list.remove\<close> finds its argument by identity (the class defines no
  \<open>__eq__\<close>).  So objects live in a store and the program handles references.
  \<open>fresh\<close> is the next unused reference.
\<close>

type_synonym ref = nat

record store =
  cells :: "ref \<Rightarrow> Checker"
  fresh :: ref

definition new_Checker :: "bool \<Rightarrow> bool \<Rightarrow> int \<Rightarrow> int \<Rightarrow> store \<Rightarrow> ref \<times> store" where
  "new_Checker king is_red x_pos y_pos s =
     (fresh s, s\<lparr>cells := (cells s)(fresh s := Checker_init king is_red x_pos y_pos),
                 fresh := fresh s + 1\<rparr>)"

definition set_data :: "ref \<Rightarrow> int \<Rightarrow> store \<Rightarrow> store" where
  "set_data p d s = s\<lparr>cells := (cells s)(p := \<lparr>data = d\<rparr>)\<rparr>"

section \<open>The CheckerBoard class\<close>

record CheckerBoard =
  width :: int
  height :: int
  pieces :: "ref list"

datatype error = ValueError

definition add_piece :: "ref \<Rightarrow> CheckerBoard \<Rightarrow> CheckerBoard" where
  "add_piece piece b = b\<lparr>pieces := pieces b @ [piece]\<rparr>"

text \<open>\<open>list.remove\<close> deletes the first occurrence and raises \<open>ValueError\<close> when there is none.\<close>

definition list_remove :: "ref \<Rightarrow> ref list \<Rightarrow> error + ref list" where
  "list_remove piece ps = (if piece \<in> set ps then Inr (remove1 piece ps) else Inl ValueError)"

definition remove_piece :: "ref \<Rightarrow> CheckerBoard \<Rightarrow> error + CheckerBoard" where
  "remove_piece piece b =
     (case list_remove piece (pieces b) of
        Inl e \<Rightarrow> Inl e
      | Inr ps \<Rightarrow> Inr (b\<lparr>pieces := ps\<rparr>))"

definition red_check :: "int \<Rightarrow> int \<Rightarrow> bool" where
  "red_check row column = (if (row + column) mod 2 = 0 then False else True)"

definition get_number_of_pieces :: "CheckerBoard \<Rightarrow> nat" where
  "get_number_of_pieces b = length (pieces b)"

text \<open>The body of the \<open>for column in range(self.width)\<close> loop of \<open>generate_board\<close>.\<close>

definition generate_column :: "int \<Rightarrow> int \<Rightarrow> CheckerBoard \<times> store \<Rightarrow> CheckerBoard \<times> store" where
  "generate_column current_row column bs =
     (let (b, s) = bs;
          (b, s) = (if \<not> red_check current_row column
                    then (let (p, s) = new_Checker False False column current_row s
                          in (add_piece p b, s))
                    else (b, s));
          (b, s) = (if \<not> red_check (height b - current_row - 1) column
                    then (let (p, s) = new_Checker False True column (height b - current_row - 1) s
                          in (add_piece p b, s))
                    else (b, s))
      in (b, s))"

text \<open>The \<open>while (current_row < rows_to_generate)\<close> loop; \<open>range(width)\<close> is \<open>[0..width - 1]\<close>.\<close>

function generate_rows :: "int \<Rightarrow> int \<Rightarrow> CheckerBoard \<times> store \<Rightarrow> CheckerBoard \<times> store" where
  "generate_rows current_row rows_to_generate bs =
     (if current_row < rows_to_generate
      then generate_rows (current_row + 1) rows_to_generate
             (fold (generate_column current_row) [0..width (fst bs) - 1] bs)
      else bs)"
  by pat_completeness auto
termination
  by (relation "measure (\<lambda>(c, r, bs). nat (r - c))") auto

declare generate_rows.simps [simp del]

text \<open>
  \<open>floor((height - 1)/2)\<close> and \<open>floor(height/2)\<close> divide as floats and round down; on the
  heights a board can have (3 to 16) that is integer division rounding down.
\<close>

definition generate_board :: "CheckerBoard \<Rightarrow> store \<Rightarrow> CheckerBoard \<times> store" where
  "generate_board b s =
     (let rows_to_generate =
            (if height b mod 2 = 0 then (height b - 1) div 2 else height b div 2)
      in generate_rows 0 rows_to_generate (b, s))"

definition CheckerBoard_init :: "int \<Rightarrow> int \<Rightarrow> store \<Rightarrow> CheckerBoard \<times> store" where
  "CheckerBoard_init w h s =
     (let w = (if w > 16 then 16 else w);
          w = (if w < 3 then 3 else w);
          h = (if h > 16 then 16 else h);
          h = (if h < 3 then 3 else h)
      in generate_board \<lparr>width = w, height = h, pieces = []\<rparr> s)"

section \<open>The CheckerEngine class\<close>

record CheckerEngine =
  board :: CheckerBoard
  turn :: int

definition create_game :: "int \<Rightarrow> int \<Rightarrow> store \<Rightarrow> CheckerBoard \<times> store" where
  "create_game w h s = CheckerBoard_init w h s"

definition CheckerEngine_init :: "int \<Rightarrow> int \<Rightarrow> store \<Rightarrow> CheckerEngine \<times> store" where
  "CheckerEngine_init w h s =
     (let (b, s) = create_game w h s in (\<lparr>board = b, turn = 0\<rparr>, s))"

text \<open>
  \<open>movement_check\<close> returns the tuple \<open>(L, J, P)\<close> and may set the king bit of the moving
  piece, so the model returns the tuple and the store.  The \<open>print\<close> calls under
  \<open>VERBOSE\<close> write to the console only and are left out.

  The source function has three parts.  The first, up to the occupancy loop, is a chain
  of tests that each return \<open>(False, move_is_jump, jumped_piece)\<close> with the two locals
  still at their initial values \<open>False\<close> and \<open>None\<close>; \<open>movement_gate_fails\<close> is that
  chain, true when one of the tests fires.
\<close>

fun square_occupied :: "store \<Rightarrow> int \<Rightarrow> ref list \<Rightarrow> bool" where
  "square_occupied s mv [] = False"
| "square_occupied s mv (piece # rest) =
     (if get_x_pos (cells s piece) = drop_bit 4 mv \<and> get_y_pos (cells s piece) = (mv AND 15)
      then True
      else square_occupied s mv rest)"

definition movement_gate_fails :: "CheckerEngine \<Rightarrow> store \<Rightarrow> ref \<Rightarrow> int \<Rightarrow> bool" where
  "movement_gate_fails self s moving_piece mv =
     (let mp = cells s moving_piece in
      if mv < 0 \<or> mv > 255 then True
      else if drop_bit 4 mv \<ge> width (board self) then True
      else if (mv AND 15) \<ge> height (board self) then True
      else if red_check (mv AND 15) (drop_bit 4 mv) then True
      else if get_x_pos mp = drop_bit 4 mv \<or> get_y_pos mp = (mv AND 15) then True
      else if get_y_pos mp \<ge> (mv AND 15) \<and> is_king mp = False \<and> get_color mp = ''Black''
        then True
      else if get_y_pos mp \<le> (mv AND 15) \<and> is_king mp = False \<and> get_color mp = ''Red''
        then True
      else if square_occupied s mv (pieces (board self)) then True
      else False)"

text \<open>
  The loop over \<open>self.board.pieces\<close> in the jumping logic.  The first component of the
  result is \<open>False\<close> when the loop returns \<open>(False, move_is_jump, jumped_piece)\<close> from
  inside, \<open>True\<close> when it runs to its end; the second is \<open>jumped_piece\<close> at that point.
\<close>

fun jump_scan :: "store \<Rightarrow> ref \<Rightarrow> int \<Rightarrow> ref list \<Rightarrow> ref option \<Rightarrow> bool \<times> ref option" where
  "jump_scan s moving_piece mv [] jumped_piece = (True, jumped_piece)"
| "jump_scan s moving_piece mv (piece # rest) jumped_piece =
     (let p = cells s piece;
          mp = cells s moving_piece;
          at_plus = (get_x_pos p = drop_bit 4 mv + 1 \<and> get_y_pos p = (mv AND 15) + 1);
          at_minus = (get_x_pos p = drop_bit 4 mv - 1 \<and> get_y_pos p = (mv AND 15) - 1)
      in if at_plus \<and> get_color p = get_color mp then (False, jumped_piece)
         else let jumped_piece = (if at_plus then Some piece else jumped_piece)
              in if at_minus \<and> get_color p = get_color mp then (False, jumped_piece)
                 else jump_scan s moving_piece mv rest
                        (if at_minus then Some piece else jumped_piece))"

definition classified_as_jump :: "store \<Rightarrow> ref \<Rightarrow> int \<Rightarrow> bool" where
  "classified_as_jump s moving_piece mv =
     (get_x_pos (cells s moving_piece) > drop_bit 4 mv + 1
      \<or> get_x_pos (cells s moving_piece) < drop_bit 4 mv - 1)"

text \<open>The king logic at the end of \<open>movement_check\<close>.\<close>

definition promote :: "CheckerEngine \<Rightarrow> ref \<Rightarrow> int \<Rightarrow> store \<Rightarrow> store" where
  "promote self moving_piece mv s =
     (let mp = cells s moving_piece in
      if get_color mp = ''Red''
      then (if (mv AND 15) = 0 then set_data moving_piece (data mp OR 512) s else s)
      else (if (mv AND 15) = height (board self) - 1
            then set_data moving_piece (data mp OR 512) s else s))"

definition movement_check ::
  "CheckerEngine \<Rightarrow> store \<Rightarrow> ref \<Rightarrow> int \<Rightarrow> (bool \<times> bool \<times> ref option) \<times> store" where
  "movement_check self s moving_piece mv =
     (let move_is_jump = False;
          jumped_piece = None;
          mp = cells s moving_piece
      in if movement_gate_fails self s moving_piece mv
         then ((False, move_is_jump, jumped_piece), s)
         else
           let move_is_jump = (if classified_as_jump s moving_piece mv then True else move_is_jump)
           in if move_is_jump \<and> get_y_pos mp \<ge> (mv AND 15) \<and> is_king mp = False
                   \<and> get_color mp = ''Black''
              then ((False, move_is_jump, jumped_piece), s)
              else if move_is_jump \<and> get_y_pos mp \<le> (mv AND 15) \<and> is_king mp = False
                        \<and> get_color mp = ''Red''
              then ((False, move_is_jump, jumped_piece), s)
              else
                let (completed, jumped_piece) =
                      (if move_is_jump
                       then jump_scan s moving_piece mv (pieces (board self)) jumped_piece
                       else (True, jumped_piece))
                in if \<not> completed then ((False, move_is_jump, jumped_piece), s)
                   else ((True, move_is_jump, jumped_piece), promote self moving_piece mv s))"

text \<open>
  \<open>move\<close> returns a string that prints the three values of the tuple; the model returns
  the tuple, with the engine and the store as \<open>move\<close> leaves them.  The only statement
  that can raise is \<open>self.board.pieces.remove\<close>.
\<close>

definition move ::
  "CheckerEngine \<Rightarrow> store \<Rightarrow> ref \<Rightarrow> int
     \<Rightarrow> error + ((bool \<times> bool \<times> ref option) \<times> CheckerEngine \<times> store)" where
  "move self s moving_piece mv =
     (let ((was_legal, was_jump, jumped_piece), s) = movement_check self s moving_piece mv;
          s = (if was_legal
               then (let temp_data = drop_bit 8 (data (cells s moving_piece));
                         final_data = push_bit 8 temp_data OR mv
                     in set_data moving_piece final_data s)
               else s)
      in if was_jump \<and> jumped_piece \<noteq> None
         then (case remove_piece (the jumped_piece) (board self) of
                 Inl e \<Rightarrow> Inl e
               | Inr b \<Rightarrow> Inr ((was_legal, was_jump, jumped_piece), self\<lparr>board := b\<rparr>, s))
         else Inr ((was_legal, was_jump, jumped_piece), self, s))"

section \<open>Auxiliary definitions for the proofs\<close>

text \<open>The packing expression of \<open>Checker.__init__\<close>, with the colour flag as a Boolean.\<close>

definition pack :: "bool \<Rightarrow> bool \<Rightarrow> int \<Rightarrow> int \<Rightarrow> int" where
  "pack k r x y = push_bit 9 (of_bool k) OR push_bit 8 (of_bool r) OR push_bit 4 x OR y"

text \<open>The two clamping statements of \<open>Checker.__init__\<close> taken together.\<close>

definition clamp15 :: "int \<Rightarrow> int" where
  "clamp15 v = max 0 (min 15 v)"

text \<open>
  Every value a Checker object can hold: \<open>data\<close> is written by the constructor, by the
  promotion at the end of \<open>movement_check\<close> and by the position update of \<open>move\<close>, and
  nowhere else.
\<close>

inductive_set Checkers :: "Checker set" where
  constructed: "Checker_init king is_red x_pos y_pos \<in> Checkers"
| promoted: "c \<in> Checkers \<Longrightarrow> \<lparr>data = data c OR 512\<rparr> \<in> Checkers"
| moved: "c \<in> Checkers \<Longrightarrow> 0 \<le> mv \<Longrightarrow> mv \<le> 255 \<Longrightarrow>
            \<lparr>data = push_bit 8 (drop_bit 8 (data c)) OR mv\<rparr> \<in> Checkers"

text \<open>The invariant of board generation: every piece placed so far is an allocated object
  on a square that \<open>red_check\<close> lets through.\<close>

definition on_black :: "store \<Rightarrow> ref \<Rightarrow> bool" where
  "on_black s p = ((get_y_pos (cells s p) + get_x_pos (cells s p)) mod 2 = 0)"

definition placed_ok :: "CheckerBoard \<times> store \<Rightarrow> bool" where
  "placed_ok bs = (\<forall>p \<in> set (pieces (fst bs)). p < fresh (snd bs) \<and> on_black (snd bs) p)"

text \<open>The store of a program that has created no object yet.\<close>

definition empty_store :: store where
  "empty_store = \<lparr>cells = (\<lambda>_. \<lparr>data = 0\<rparr>), fresh = 0\<rparr>"

text \<open>
  A standard game: the engine \<open>CheckerEngine(8, 8)\<close>, and the same game after Black's
  piece on column 2, row 2 (object 18) has moved to column 3, row 3.
\<close>

definition new_game :: "CheckerEngine \<times> store" where
  "new_game = CheckerEngine_init 8 8 empty_store"

definition after_opening :: "CheckerEngine \<times> store" where
  "after_opening =
     (case move (fst new_game) (snd new_game) 18 51 of
        Inl e \<Rightarrow> new_game
      | Inr (r, self, s) \<Rightarrow> (self, s))"

text \<open>An 8 by 8 board that holds one piece, object 0.\<close>

definition single_piece_game :: "Checker \<Rightarrow> CheckerEngine \<times> store" where
  "single_piece_game c =
     (\<lparr>board = \<lparr>width = 8, height = 8, pieces = [0]\<rparr>, turn = 0\<rparr>,
      \<lparr>cells = (\<lambda>_. \<lparr>data = 0\<rparr>)(0 := c), fresh = 1\<rparr>)"

section \<open>Bit-level facts about the packed code\<close>

lemma king_bit: "(drop_bit 9 (d AND 512) = 1) = bit (d::int) 9"
proof -
  have "drop_bit 9 (d AND push_bit 9 1) = of_bool (bit d 9)"
    by (rule bit_eqI) (auto simp add: bit_simps)
  then show ?thesis by (simp split: if_splits)
qed

lemma color_bit: "(drop_bit 8 (d AND 256) = 1) = bit (d::int) 8"
proof -
  have "drop_bit 8 (d AND push_bit 8 1) = of_bool (bit d 8)"
    by (rule bit_eqI) (auto simp add: bit_simps)
  then show ?thesis by (simp split: if_splits)
qed

lemma col_bits: "drop_bit 4 (d AND 240) = take_bit 4 (drop_bit 4 (d::int))"
proof -
  have "drop_bit 4 (d AND push_bit 4 (mask 4)) = take_bit 4 (drop_bit 4 d)"
    by (rule bit_eqI) (auto simp add: bit_simps)
  then show ?thesis by (simp add: mask_eq_exp_minus_1)
qed

lemma row_bits: "d AND 15 = take_bit 4 (d::int)"
proof -
  have "d AND mask 4 = take_bit 4 d"
    by (rule bit_eqI) (auto simp add: bit_simps)
  then show ?thesis by (simp add: mask_eq_exp_minus_1)
qed

lemma nibble_id: "0 \<le> x \<Longrightarrow> x \<le> 15 \<Longrightarrow> take_bit 4 (x::int) = x"
  by (simp add: take_bit_int_eq_self)

lemma byte_id: "0 \<le> x \<Longrightarrow> x \<le> 255 \<Longrightarrow> take_bit 8 (x::int) = x"
  by (simp add: take_bit_int_eq_self)

lemma code_id: "0 \<le> x \<Longrightarrow> x < 1024 \<Longrightarrow> take_bit 10 (x::int) = x"
  by (simp add: take_bit_int_eq_self)

lemma pack_king: "bit (pack k r (take_bit 4 x) (take_bit 4 y)) 9 = k"
  by (auto simp add: pack_def bit_simps)

lemma pack_color: "bit (pack k r (take_bit 4 x) (take_bit 4 y)) 8 = r"
  by (auto simp add: pack_def bit_simps)

lemma pack_col: "take_bit 4 (drop_bit 4 (pack k r (take_bit 4 x) (take_bit 4 y))) = take_bit 4 x"
  by (rule bit_eqI) (auto simp add: pack_def bit_simps)

lemma pack_row: "take_bit 4 (pack k r (take_bit 4 x) (take_bit 4 y)) = take_bit 4 y"
  by (rule bit_eqI) (auto simp add: pack_def bit_simps)

lemma pack_range:
  "take_bit 10 (pack k r (take_bit 4 x) (take_bit 4 y)) = pack k r (take_bit 4 x) (take_bit 4 y)"
  by (rule bit_eqI) (auto simp add: pack_def bit_simps)

lemma repack:
  "pack (bit (d::int) 9) (bit d 8) (take_bit 4 (drop_bit 4 d)) (take_bit 4 d) = take_bit 10 d"
proof (rule bit_eqI)
  fix i :: nat
  consider "i < 4" | "4 \<le> i \<and> i < 8" | "i = 8" | "i = 9" | "10 \<le> i"
    by linarith
  then show "bit (pack (bit d 9) (bit d 8) (take_bit 4 (drop_bit 4 d)) (take_bit 4 d)) i
          = bit (take_bit 10 d) i"
    by cases (auto simp add: pack_def bit_simps)
qed

lemma moved_king: "bit (push_bit 8 (drop_bit 8 d) OR take_bit 8 m) 9 = bit (d::int) 9"
  by (auto simp add: bit_simps)

lemma moved_color: "bit (push_bit 8 (drop_bit 8 d) OR take_bit 8 m) 8 = bit (d::int) 8"
  by (auto simp add: bit_simps)

lemma moved_col:
  "take_bit 4 (drop_bit 4 (push_bit 8 (drop_bit 8 d) OR take_bit 8 m)) = drop_bit 4 (take_bit 8 (m::int))"
  by (rule bit_eqI) (auto simp add: bit_simps)

lemma moved_row: "take_bit 4 (push_bit 8 (drop_bit 8 d) OR take_bit 8 m) = take_bit 4 (m::int)"
  by (rule bit_eqI) (auto simp add: bit_simps)

lemma moved_high: "drop_bit 8 (push_bit 8 (drop_bit 8 d) OR take_bit 8 m) = drop_bit 8 (d::int)"
  by (rule bit_eqI) (auto simp add: bit_simps)

lemma moved_range:
  "take_bit 10 (push_bit 8 (drop_bit 8 (take_bit 10 d)) OR take_bit 8 m)
     = push_bit 8 (drop_bit 8 (take_bit 10 (d::int))) OR take_bit 8 m"
  by (rule bit_eqI) (auto simp add: bit_simps)

lemma promoted_king: "bit ((d::int) OR 512) 9"
proof -
  have "bit (d OR push_bit 9 1) 9" by (auto simp add: bit_simps)
  then show ?thesis by simp
qed

lemma promoted_color: "bit (d OR 512) 8 = bit (d::int) 8"
proof -
  have "bit (d OR push_bit 9 1) 8 = bit d 8" by (auto simp add: bit_simps)
  then show ?thesis by simp
qed

lemma promoted_low: "take_bit 8 (d OR 512) = take_bit 8 (d::int)"
proof -
  have "take_bit 8 (d OR push_bit 9 1) = take_bit 8 d"
    by (rule bit_eqI) (auto simp add: bit_simps)
  then show ?thesis by simp
qed

lemma promoted_range: "take_bit 10 (take_bit 10 d OR 512) = take_bit 10 (d::int) OR 512"
proof -
  have "take_bit 10 (take_bit 10 d OR push_bit 9 1) = take_bit 10 d OR push_bit 9 1"
    by (rule bit_eqI) (auto simp add: bit_simps)
  then show ?thesis by simp
qed

section \<open>The accessors in terms of bits\<close>

lemma is_king_bit: "is_king c = bit (data c) 9"
  unfolding is_king_def king_bit by simp

lemma get_color_bit: "get_color c = (if bit (data c) 8 then ''Red'' else ''Black'')"
  unfolding get_color_def color_bit by simp

lemma get_x_pos_bits: "get_x_pos c = take_bit 4 (drop_bit 4 (data c))"
  unfolding get_x_pos_def col_bits by (rule refl)

lemma get_y_pos_bits: "get_y_pos c = take_bit 4 (data c)"
  unfolding get_y_pos_def row_bits by (rule refl)

lemma get_x_pos_range: "0 \<le> get_x_pos c \<and> get_x_pos c \<le> 15"
proof -
  have "take_bit 4 (drop_bit 4 (data c)) < 2 ^ 4" by (rule take_bit_int_less_exp)
  then show ?thesis by (simp add: get_x_pos_bits)
qed

lemma get_y_pos_range: "0 \<le> get_y_pos c \<and> get_y_pos c \<le> 15"
proof -
  have "take_bit 4 (data c) < 2 ^ 4" by (rule take_bit_int_less_exp)
  then show ?thesis by (simp add: get_y_pos_bits)
qed

lemma data_Checker_init:
  "data (Checker_init king is_red x_pos y_pos)
     = pack king is_red (take_bit 4 (clamp15 x_pos)) (take_bit 4 (clamp15 y_pos))"
proof -
  have "take_bit 4 (clamp15 x_pos) = clamp15 x_pos" "take_bit 4 (clamp15 y_pos) = clamp15 y_pos"
    by (rule nibble_id; simp add: clamp15_def)+
  moreover have "(if (if 15 < x_pos then 15 else x_pos) < 0 then 0
                  else if 15 < x_pos then 15 else x_pos) = clamp15 x_pos" for x_pos
    by (simp add: clamp15_def max_def min_def)
  ultimately show ?thesis
    by (simp add: Checker_init_def Let_def pack_def)
qed

lemma is_king_Checker_init: "is_king (Checker_init king is_red x_pos y_pos) = king"
  by (simp add: is_king_bit data_Checker_init pack_king)

lemma get_color_Checker_init:
  "get_color (Checker_init king is_red x_pos y_pos) = (if is_red then ''Red'' else ''Black'')"
  by (simp add: get_color_bit data_Checker_init pack_color)

lemma get_x_pos_Checker_init: "get_x_pos (Checker_init king is_red x_pos y_pos) = clamp15 x_pos"
proof -
  have "get_x_pos (Checker_init king is_red x_pos y_pos) = take_bit 4 (clamp15 x_pos)"
    unfolding get_x_pos_bits data_Checker_init by (rule pack_col)
  also have "\<dots> = clamp15 x_pos"
    by (rule nibble_id) (simp_all add: clamp15_def)
  finally show ?thesis .
qed

lemma get_y_pos_Checker_init: "get_y_pos (Checker_init king is_red x_pos y_pos) = clamp15 y_pos"
proof -
  have "get_y_pos (Checker_init king is_red x_pos y_pos) = take_bit 4 (clamp15 y_pos)"
    unfolding get_y_pos_bits data_Checker_init by (rule pack_row)
  also have "\<dots> = clamp15 y_pos"
    by (rule nibble_id) (simp_all add: clamp15_def)
  finally show ?thesis .
qed

lemma canonical_code_accessors:
  "canonical_code (is_king c) (get_color c) (get_x_pos c) (get_y_pos c) = take_bit 10 (data c)"
proof -
  have "canonical_code (is_king c) (get_color c) (get_x_pos c) (get_y_pos c)
          = pack (bit (data c) 9) (bit (data c) 8) (take_bit 4 (drop_bit 4 (data c)))
              (take_bit 4 (data c))"
    by (simp add: canonical_code_def pack_def is_king_bit get_color_bit get_x_pos_bits
        get_y_pos_bits)
  then show ?thesis by (simp add: repack)
qed

section \<open>Board generation\<close>

lemma clamp15_id: "0 \<le> v \<Longrightarrow> v \<le> 15 \<Longrightarrow> clamp15 v = v"
  by (simp add: clamp15_def)

lemma place_keeps_placed_ok:
  assumes ok: "placed_ok (b, s)"
    and new: "new_Checker king is_red x y s = (p, s')"
    and x: "0 \<le> x" "x \<le> 15" and y: "0 \<le> y" "y \<le> 15"
    and par: "(y + x) mod 2 = 0"
  shows "placed_ok (add_piece p b, s')"
proof -
  from new have p: "p = fresh s"
    and s': "s' = s\<lparr>cells := (cells s)(fresh s := Checker_init king is_red x y), fresh := fresh s + 1\<rparr>"
    by (auto simp add: new_Checker_def)
  have "on_black s' p"
    using par x y by (simp add: on_black_def s' p get_x_pos_Checker_init get_y_pos_Checker_init clamp15_id)
  moreover have "q < fresh s' \<and> on_black s' q" if "q \<in> set (pieces b)" for q
  proof -
    from ok that have "q < fresh s" "on_black s q" by (simp_all add: placed_ok_def)
    then show ?thesis by (simp add: s' on_black_def)
  qed
  moreover have "p < fresh s'" by (simp add: p s')
  ultimately show ?thesis
    by (auto simp add: placed_ok_def add_piece_def)
qed

lemma generate_column_dims:
  "width (fst (generate_column current_row column bs)) = width (fst bs)
   \<and> height (fst (generate_column current_row column bs)) = height (fst bs)"
  by (cases bs) (auto simp add: generate_column_def add_piece_def Let_def split: prod.splits)

lemma generate_column_placed_ok:
  assumes ok: "placed_ok bs"
    and col: "0 \<le> column" "column \<le> 15"
    and row: "0 \<le> current_row" "current_row < height (fst bs)" "height (fst bs) \<le> 16"
  shows "placed_ok (generate_column current_row column bs)"
proof -
  obtain b s where bs: "bs = (b, s)" by (cases bs)
  define bs1 where "bs1 = (if \<not> red_check current_row column
                    then (let (p, s) = new_Checker False False column current_row s
                          in (add_piece p b, s))
                    else (b, s))"
  have ok1: "placed_ok bs1"
  proof (cases "red_check current_row column")
    case True
    then show ?thesis using ok by (simp add: bs1_def bs)
  next
    case False
    then have par: "(current_row + column) mod 2 = 0" by (simp add: red_check_def split: if_splits)
    obtain p s' where new: "new_Checker False False column current_row s = (p, s')"
      by (cases "new_Checker False False column current_row s")
    have "placed_ok (add_piece p b, s')"
      using place_keeps_placed_ok [OF ok [unfolded bs] new col _ _ par] row by (simp add: bs)
    then show ?thesis using False by (simp add: bs1_def new)
  qed
  have h1: "height (fst bs1) = height b"
    by (simp add: bs1_def add_piece_def Let_def split: prod.splits)
  obtain b1 s1 where bs1: "bs1 = (b1, s1)" by (cases bs1)
  have res: "generate_column current_row column bs =
      (if \<not> red_check (height b1 - current_row - 1) column
                    then (let (p, s) = new_Checker False True column (height b1 - current_row - 1) s1
                          in (add_piece p b1, s))
                    else (b1, s1))"
    using bs1 by (simp add: generate_column_def bs bs1_def Let_def split: prod.splits)
  show ?thesis
  proof (cases "red_check (height b1 - current_row - 1) column")
    case True
    then show ?thesis using ok1 by (simp add: res bs1)
  next
    case False
    then have par: "((height b1 - current_row - 1) + column) mod 2 = 0"
      by (simp add: red_check_def split: if_splits)
    obtain p s' where new: "new_Checker False True column (height b1 - current_row - 1) s1 = (p, s')"
      by (cases "new_Checker False True column (height b1 - current_row - 1) s1")
    have "height b1 = height b" using h1 bs1 by simp
    then have "0 \<le> height b1 - current_row - 1" "height b1 - current_row - 1 \<le> 15"
      using row by (simp_all add: bs)
    then have "placed_ok (add_piece p b1, s')"
      using place_keeps_placed_ok [OF ok1 [unfolded bs1] new col _ _ par] by simp
    then show ?thesis using False by (simp add: res new)
  qed
qed

lemma fold_generate_column_dims:
  "width (fst (fold (generate_column current_row) cols bs)) = width (fst bs)
   \<and> height (fst (fold (generate_column current_row) cols bs)) = height (fst bs)"
  by (induction cols arbitrary: bs) (simp_all add: generate_column_dims)

lemma fold_generate_column_placed_ok:
  assumes "placed_ok bs" "\<forall>c \<in> set cols. 0 \<le> c \<and> c \<le> 15"
    and "0 \<le> current_row" "current_row < height (fst bs)" "height (fst bs) \<le> 16"
  shows "placed_ok (fold (generate_column current_row) cols bs)"
  using assms
proof (induction cols arbitrary: bs)
  case Nil
  then show ?case by simp
next
  case (Cons c cols)
  have "placed_ok (generate_column current_row c bs)"
    using Cons.prems by (intro generate_column_placed_ok) simp_all
  moreover have "height (fst (generate_column current_row c bs)) = height (fst bs)"
    by (simp add: generate_column_dims)
  ultimately show ?case
    using Cons.prems by (simp add: Cons.IH)
qed

lemma generate_rows_dims:
  "width (fst (generate_rows current_row rows bs)) = width (fst bs)
   \<and> height (fst (generate_rows current_row rows bs)) = height (fst bs)"
proof (induction current_row rows bs rule: generate_rows.induct)
  case (1 current_row rows bs)
  show ?case
  proof (cases "current_row < rows")
    case True
    then show ?thesis
      using "1.IH" by (subst (1 2) generate_rows.simps) (simp add: fold_generate_column_dims)
  next
    case False
    then show ?thesis by (subst (1 2) generate_rows.simps) simp
  qed
qed

lemma generate_rows_placed_ok:
  assumes "placed_ok bs" "0 \<le> current_row" "rows \<le> height (fst bs)"
    "height (fst bs) \<le> 16" "width (fst bs) \<le> 16"
  shows "placed_ok (generate_rows current_row rows bs)"
  using assms
proof (induction current_row rows bs rule: generate_rows.induct)
  case (1 current_row rows bs)
  show ?case
  proof (cases "current_row < rows")
    case False
    then show ?thesis using "1.prems" by (subst generate_rows.simps) simp
  next
    case True
    let ?bs' = "fold (generate_column current_row) [0..width (fst bs) - 1] bs"
    have "placed_ok ?bs'"
      using "1.prems" True by (intro fold_generate_column_placed_ok) auto
    moreover have "height (fst ?bs') = height (fst bs)" "width (fst ?bs') = width (fst bs)"
      by (simp_all add: fold_generate_column_dims)
    ultimately have "placed_ok (generate_rows (current_row + 1) rows ?bs')"
      using "1.prems" True by (intro "1.IH") simp_all
    then show ?thesis using True by (subst generate_rows.simps) simp
  qed
qed

lemma generate_board_placed_ok:
  assumes "placed_ok (b, s)" "0 \<le> height b" "height b \<le> 16" "width b \<le> 16"
  shows "placed_ok (generate_board b s)"
proof -
  have "(if height b mod 2 = 0 then (height b - 1) div 2 else height b div 2) \<le> height b"
    using assms(2) by auto
  then have "placed_ok (generate_rows 0
      (if height b mod 2 = 0 then (height b - 1) div 2 else height b div 2) (b, s))"
    using assms by (intro generate_rows_placed_ok) simp_all
  then show ?thesis by (simp add: generate_board_def Let_def)
qed

lemma CheckerBoard_init_placed_ok: "placed_ok (CheckerBoard_init w h s)"
  unfolding CheckerBoard_init_def Let_def
  by (rule generate_board_placed_ok) (simp_all add: placed_ok_def)

lemma CheckerBoard_init_dims:
  "3 \<le> width (fst (CheckerBoard_init w h s)) \<and> width (fst (CheckerBoard_init w h s)) \<le> 16
   \<and> 3 \<le> height (fst (CheckerBoard_init w h s)) \<and> height (fst (CheckerBoard_init w h s)) \<le> 16"
  by (simp add: CheckerBoard_init_def generate_board_def Let_def generate_rows_dims)

lemmas gen_defs = CheckerBoard_init_def generate_board_def generate_rows.simps
  generate_column_def red_check_def new_Checker_def add_piece_def Let_def upto.simps

lemma board33: "pieces (fst (CheckerBoard_init 3 3 empty_store)) = [0, 1, 2, 3]"
  by (simp add: gen_defs empty_store_def)

lemma board88_pieces:
  "pieces (fst (CheckerBoard_init 8 8 s)) = map (\<lambda>i. fresh s + i) [0..<24]"
  by (simp add: gen_defs upt_rec )

lemma board88_cells:
  "map (\<lambda>i. data (cells (snd (CheckerBoard_init 8 8 s)) (fresh s + i))) [0..<24] =
  [0, 279, 32, 311, 64, 343, 96, 375, 262, 17, 294, 49, 326, 81, 358, 113,
   2, 277, 34, 309, 66, 341, 98, 373]"
  by (simp add: gen_defs upt_rec Checker_init_def)

section \<open>Move validation and execution\<close>

lemma square_occupied_iff:
  "square_occupied s mv ps \<longleftrightarrow>
     (\<exists>p \<in> set ps. get_x_pos (cells s p) = drop_bit 4 mv \<and> get_y_pos (cells s p) = (mv AND 15))"
  by (induction ps) auto

lemma movement_gate_fails_iff:
  "movement_gate_fails self s moving_piece mv \<longleftrightarrow>
     mv < 0 \<or> mv > 255
     \<or> drop_bit 4 mv \<ge> width (board self)
     \<or> (mv AND 15) \<ge> height (board self)
     \<or> red_check (mv AND 15) (drop_bit 4 mv)
     \<or> get_x_pos (cells s moving_piece) = drop_bit 4 mv
     \<or> get_y_pos (cells s moving_piece) = (mv AND 15)
     \<or> (get_y_pos (cells s moving_piece) \<ge> (mv AND 15) \<and> \<not> is_king (cells s moving_piece)
          \<and> get_color (cells s moving_piece) = ''Black'')
     \<or> (get_y_pos (cells s moving_piece) \<le> (mv AND 15) \<and> \<not> is_king (cells s moving_piece)
          \<and> get_color (cells s moving_piece) = ''Red'')
     \<or> square_occupied s mv (pieces (board self))"
  unfolding movement_gate_fails_def Let_def by (simp only: if_True if_False split: if_splits) blast

lemma jump_scan_completes_iff:
  "fst (jump_scan s moving_piece mv ps jumped_piece) \<longleftrightarrow>
     \<not> (\<exists>p \<in> set ps.
           ((get_x_pos (cells s p) = drop_bit 4 mv + 1 \<and> get_y_pos (cells s p) = (mv AND 15) + 1)
            \<or> (get_x_pos (cells s p) = drop_bit 4 mv - 1 \<and> get_y_pos (cells s p) = (mv AND 15) - 1))
           \<and> get_color (cells s p) = get_color (cells s moving_piece))"
  by (induction ps arbitrary: jumped_piece) (auto simp add: Let_def)

lemma jump_scan_no_candidate:
  assumes "\<forall>p \<in> set ps.
      \<not> (get_x_pos (cells s p) = drop_bit 4 mv + 1 \<and> get_y_pos (cells s p) = (mv AND 15) + 1)
      \<and> \<not> (get_x_pos (cells s p) = drop_bit 4 mv - 1 \<and> get_y_pos (cells s p) = (mv AND 15) - 1)"
  shows "jump_scan s moving_piece mv ps jumped_piece = (True, jumped_piece)"
  using assms by (induction ps arbitrary: jumped_piece) (auto simp add: Let_def)

lemma jump_scan_jumped_piece:
  "snd (jump_scan s moving_piece mv ps jumped_piece) = Some q \<Longrightarrow>
     q \<in> set ps \<or> jumped_piece = Some q"
  by (induction ps arbitrary: jumped_piece) (auto simp add: Let_def split: if_splits)

lemma jump_scan_jumped_color:
  "snd (jump_scan s moving_piece mv ps jumped_piece) = Some q \<Longrightarrow>
     jumped_piece = Some q \<or> get_color (cells s q) \<noteq> get_color (cells s moving_piece)"
  by (induction ps arbitrary: jumped_piece) (auto simp add: Let_def split: if_splits)

lemma movement_check_gate_fails:
  "movement_gate_fails self s moving_piece mv \<Longrightarrow>
     movement_check self s moving_piece mv = ((False, False, None), s)"
  by (simp add: movement_check_def)

lemma movement_check_gates_pass:
  assumes "\<not> movement_gate_fails self s moving_piece mv"
  shows "movement_check self s moving_piece mv =
     (if classified_as_jump s moving_piece mv
      then (if fst (jump_scan s moving_piece mv (pieces (board self)) None)
            then ((True, True, snd (jump_scan s moving_piece mv (pieces (board self)) None)),
                  promote self moving_piece mv s)
            else ((False, True, snd (jump_scan s moving_piece mv (pieces (board self)) None)), s))
      else ((True, False, None), promote self moving_piece mv s))"
proof -
  from assms have "\<not> (get_y_pos (cells s moving_piece) \<ge> (mv AND 15) \<and> \<not> is_king (cells s moving_piece)
          \<and> get_color (cells s moving_piece) = ''Black'')"
     and "\<not> (get_y_pos (cells s moving_piece) \<le> (mv AND 15) \<and> \<not> is_king (cells s moving_piece)
          \<and> get_color (cells s moving_piece) = ''Red'')"
    unfolding movement_gate_fails_iff by blast+
  then show ?thesis
    using assms by (auto simp add: movement_check_def Let_def split: prod.splits)
qed

lemma promote_cells_other:
  "p \<noteq> moving_piece \<Longrightarrow> cells (promote self moving_piece mv s) p = cells s p"
  by (simp add: promote_def set_data_def Let_def)

lemma promote_data:
  "data (cells (promote self moving_piece mv s) moving_piece) =
     (if (if get_color (cells s moving_piece) = ''Red'' then (mv AND 15) = 0
          else (mv AND 15) = height (board self) - 1)
      then data (cells s moving_piece) OR 512 else data (cells s moving_piece))"
  by (simp add: promote_def set_data_def Let_def)

lemma promote_fresh: "fresh (promote self moving_piece mv s) = fresh s"
  by (simp add: promote_def set_data_def Let_def)

lemma movement_check_jumped_in_pieces:
  assumes "snd (snd (fst (movement_check self s moving_piece mv))) = Some q"
  shows "q \<in> set (pieces (board self))"
proof (cases "movement_gate_fails self s moving_piece mv")
  case True
  then show ?thesis using assms by (simp add: movement_check_gate_fails)
next
  case False
  then have "snd (jump_scan s moving_piece mv (pieces (board self)) None) = Some q"
    using assms by (simp add: movement_check_gates_pass split: if_splits)
  then show ?thesis using jump_scan_jumped_piece by fastforce
qed

lemma move_never_raises: "\<exists>r. move self s moving_piece mv = Inr r"
proof -
  obtain l j jp s' where mc: "movement_check self s moving_piece mv = ((l, j, jp), s')"
    by (metis prod.exhaust)
  show ?thesis
  proof (cases "j \<and> jp \<noteq> None")
    case False
    then show ?thesis by (auto simp add: move_def mc Let_def)
  next
    case True
    then obtain q where q: "jp = Some q" by auto
    then have "q \<in> set (pieces (board self))"
      using movement_check_jumped_in_pieces [of self s moving_piece mv] mc by simp
    then show ?thesis
      using True q by (auto simp add: move_def mc Let_def remove_piece_def list_remove_def)
  qed
qed

lemma Checkers_range: "c \<in> Checkers \<Longrightarrow> take_bit 10 (data c) = data c"
proof (induction rule: Checkers.induct)
  case (constructed king is_red x_pos y_pos)
  show ?case by (simp only: data_Checker_init pack_range)
next
  case (promoted c)
  have "take_bit 10 (take_bit 10 (data c) OR 512) = take_bit 10 (data c) OR 512"
    by (rule promoted_range)
  then show ?case using promoted.IH by simp
next
  case (moved c mv)
  have "take_bit 10 (push_bit 8 (drop_bit 8 (take_bit 10 (data c))) OR take_bit 8 mv)
          = push_bit 8 (drop_bit 8 (take_bit 10 (data c))) OR take_bit 8 mv"
    by (rule moved_range)
  moreover have "take_bit 8 mv = mv" using moved.hyps by (intro byte_id)
  ultimately show ?case using moved.IH by simp
qed

lemma promote_Checkers:
  assumes "\<forall>p. cells s p \<in> Checkers"
  shows "\<forall>p. cells (promote self moving_piece mv s) p \<in> Checkers"
  using assms by (auto simp add: promote_def set_data_def Let_def intro: Checkers.promoted)

lemma movement_check_Checkers:
  assumes "\<forall>p. cells s p \<in> Checkers"
  shows "\<forall>p. cells (snd (movement_check self s moving_piece mv)) p \<in> Checkers"
proof (cases "movement_gate_fails self s moving_piece mv")
  case True
  then show ?thesis using assms by (simp add: movement_check_gate_fails)
next
  case False
  then show ?thesis
    using assms promote_Checkers [OF assms] by (simp add: movement_check_gates_pass)
qed

lemma movement_check_legal_range:
  "fst (fst (movement_check self s moving_piece mv)) \<Longrightarrow> 0 \<le> mv \<and> mv \<le> 255"
  by (cases "movement_gate_fails self s moving_piece mv")
    (auto simp add: movement_check_gate_fails movement_gate_fails_iff)

lemma move_Checkers:
  assumes "\<forall>p. cells s p \<in> Checkers"
    and "move self s moving_piece mv = Inr (r, self', s')"
  shows "\<forall>p. cells s' p \<in> Checkers"
proof -
  obtain l j jp s1 where mc: "movement_check self s moving_piece mv = ((l, j, jp), s1)"
    by (metis prod.exhaust)
  have s1: "\<forall>p. cells s1 p \<in> Checkers"
    using movement_check_Checkers [OF assms(1), of self moving_piece mv] mc by simp
  have s': "s' = (if l then set_data moving_piece
                    (push_bit 8 (drop_bit 8 (data (cells s1 moving_piece))) OR mv) s1 else s1)"
    using assms(2) by (auto simp add: move_def mc Let_def split: if_splits sum.splits)
  show ?thesis
  proof (cases l)
    case False
    then show ?thesis using s1 s' by simp
  next
    case True
    then have "0 \<le> mv \<and> mv \<le> 255"
      using movement_check_legal_range [of self s moving_piece mv] mc by simp
    then have "\<lparr>data = push_bit 8 (drop_bit 8 (data (cells s1 moving_piece))) OR mv\<rparr> \<in> Checkers"
      using s1 by (intro Checkers.moved) simp_all
    then show ?thesis using True s1 s' by (simp add: set_data_def)
  qed
qed

lemma new_Checker_Checkers:
  assumes "\<forall>p. cells s p \<in> Checkers"
  shows "\<forall>p. cells (snd (new_Checker king is_red x y s)) p \<in> Checkers"
  using assms by (simp add: new_Checker_def Checkers.constructed)

lemmas eval_defs = movement_check_def movement_gate_fails_def classified_as_jump_def promote_def
  set_data_def red_check_def is_king_def get_color_def get_x_pos_def get_y_pos_def Let_def

lemma new_game_eq:
  "new_game =
    (\<lparr>board = \<lparr>width = 8, height = 8,
        pieces = [0, 1, 2, 3, 4, 5, 6, 7, 8, 9, 10, 11, 12, 13, 14, 15, 16, 17, 18, 19, 20,
                  21, 22, 23]\<rparr>, turn = 0\<rparr>,
     \<lparr>cells = (\<lambda>_. \<lparr>data = 0\<rparr>)
        (0 := \<lparr>data = 0\<rparr>, 1 := \<lparr>data = 279\<rparr>, 2 := \<lparr>data = 32\<rparr>, 3 := \<lparr>data = 311\<rparr>,
         4 := \<lparr>data = 64\<rparr>, 5 := \<lparr>data = 343\<rparr>, 6 := \<lparr>data = 96\<rparr>, 7 := \<lparr>data = 375\<rparr>,
         8 := \<lparr>data = 262\<rparr>, 9 := \<lparr>data = 17\<rparr>, 10 := \<lparr>data = 294\<rparr>, 11 := \<lparr>data = 49\<rparr>,
         12 := \<lparr>data = 326\<rparr>, 13 := \<lparr>data = 81\<rparr>, 14 := \<lparr>data = 358\<rparr>, 15 := \<lparr>data = 113\<rparr>,
         16 := \<lparr>data = 2\<rparr>, 17 := \<lparr>data = 277\<rparr>, 18 := \<lparr>data = 34\<rparr>, 19 := \<lparr>data = 309\<rparr>,
         20 := \<lparr>data = 66\<rparr>, 21 := \<lparr>data = 341\<rparr>, 22 := \<lparr>data = 98\<rparr>, 23 := \<lparr>data = 373\<rparr>),
      fresh = 24\<rparr>)"
  apply (simp add: new_game_def CheckerEngine_init_def create_game_def gen_defs empty_store_def
      Checker_init_def)
  apply (simp only: eval_nat_numeral Num.BitM.simps One_nat_def)
  done

lemma new_game_blocked_jump: "movement_check (fst new_game) (snd new_game) 23 68 = ((False, True, None), snd new_game)"
  by (simp add: new_game_eq eval_defs)

lemma opening_move: "move (fst new_game) (snd new_game) 18 51 = Inr ((True, False, None), after_opening)"
  by (simp add: after_opening_def new_game_eq eval_defs move_def)

lemma after_opening_eq:
  "after_opening =
     (fst new_game, (snd new_game)\<lparr>cells := (cells (snd new_game))(18 := \<lparr>data = 51\<rparr>)\<rparr>)"
  by (simp add: after_opening_def new_game_eq eval_defs move_def)

lemma same_color_jump_illegal:
  assumes "\<not> movement_gate_fails self s moving_piece mv"
    and "get_x_pos (cells s moving_piece) > drop_bit 4 mv + 1
         \<or> get_x_pos (cells s moving_piece) < drop_bit 4 mv - 1"
    and "p \<in> set (pieces (board self))"
    and "(get_x_pos (cells s p) = drop_bit 4 mv + 1 \<and> get_y_pos (cells s p) = (mv AND 15) + 1)
         \<or> (get_x_pos (cells s p) = drop_bit 4 mv - 1 \<and> get_y_pos (cells s p) = (mv AND 15) - 1)"
    and "get_color (cells s p) = get_color (cells s moving_piece)"
  shows "\<not> fst (fst (movement_check self s moving_piece mv))"
proof -
  have "\<not> fst (jump_scan s moving_piece mv (pieces (board self)) None)"
    unfolding jump_scan_completes_iff using assms(3-5) by blast
  then show ?thesis
    using assms(1,2) by (simp add: movement_check_gates_pass classified_as_jump_def)
qed

lemma board88_objects:
  "map (cells (snd (CheckerBoard_init 8 8 s))) (pieces (fst (CheckerBoard_init 8 8 s))) =
     map Checker.make
       [0, 279, 32, 311, 64, 343, 96, 375, 262, 17, 294, 49, 326, 81, 358, 113,
        2, 277, 34, 309, 66, 341, 98, 373]"
  by (simp add: gen_defs Checker_init_def Checker.make_def)


section \<open>The claims\<close>

text \<open>
  C9.  Whatever king flag, colour, column and row the constructor is given, the stored
  column and row are the inputs clamped into the range 0 to 15: 0 for a negative input,
  15 for an input above 15, the input itself otherwise.  The constructor has no statement
  that can raise, and its model is a total function without an error result.
\<close>

theorem Checker_init_clamps:
  "get_x_pos (Checker_init king is_red x_pos y_pos) = max 0 (min 15 x_pos)
   \<and> get_y_pos (Checker_init king is_red x_pos y_pos) = max 0 (min 15 y_pos)"
  by (simp add: get_x_pos_Checker_init get_y_pos_Checker_init clamp15_def)

text \<open>
  C7.  For every Checker (a value written by the constructor, by promotion or by a
  position update), packing the king flag, colour, column and row that the accessors
  read with the canonical layout gives back the stored code.
\<close>

theorem Checker_round_trip:
  assumes "c \<in> Checkers"
  shows "canonical_code (is_king c) (get_color c) (get_x_pos c) (get_y_pos c) = data c"
  using assms by (simp add: canonical_code_accessors Checkers_range)

theorem Checker_round_trip_witness:
  "\<lparr>data = 563\<rparr> \<in> Checkers
   \<and> canonical_code (is_king \<lparr>data = 563\<rparr>) (get_color \<lparr>data = 563\<rparr>)
        (get_x_pos \<lparr>data = 563\<rparr>) (get_y_pos \<lparr>data = 563\<rparr>) = data \<lparr>data = 563\<rparr>
   \<and> canonical_code True ''Black'' 3 3 = 563"
proof -
  have init: "Checker_init False False 2 2 = \<lparr>data = 34\<rparr>"
    by (simp add: Checker_init_def)
  have "\<lparr>data = 34\<rparr> \<in> Checkers"
    using Checkers.constructed [of False False 2 2] by (simp only: init)
  then have "\<lparr>data = push_bit 8 (drop_bit 8 (data \<lparr>data = 34\<rparr>)) OR 51\<rparr> \<in> Checkers"
    by (rule Checkers.moved) simp_all
  then have "\<lparr>data = 51\<rparr> \<in> Checkers" by simp
  then have "\<lparr>data = data \<lparr>data = 51\<rparr> OR 512\<rparr> \<in> Checkers"
    by (rule Checkers.promoted)
  then have mem: "\<lparr>data = 563\<rparr> \<in> Checkers" by simp
  show ?thesis
    using mem Checker_round_trip [OF mem] by (simp add: canonical_code_def)
qed

text \<open>
  C5, as the code has it.  The claim says every generated piece sits on a square whose
  row plus column is odd.  On a 3 by 3 board generated from the empty store the first
  piece, object 0, sits on row 0, column 0.
\<close>

theorem generated_piece_on_even_square:
  "0 \<in> set (pieces (fst (CheckerBoard_init 3 3 empty_store)))
   \<and> \<not> odd (get_y_pos (cells (snd (CheckerBoard_init 3 3 empty_store)) 0)
             + get_x_pos (cells (snd (CheckerBoard_init 3 3 empty_store)) 0))"
  by (simp add: gen_defs empty_store_def Checker_init_def get_x_pos_def get_y_pos_def)

text \<open>
  C5, amended.  For every width and height given to the board's constructor and every
  store it starts from, every piece placed by board generation sits on a square whose
  row plus column is even.
\<close>

theorem generated_pieces_on_even_squares:
  "\<forall>p \<in> set (pieces (fst (CheckerBoard_init w h s))).
     (get_y_pos (cells (snd (CheckerBoard_init w h s)) p)
        + get_x_pos (cells (snd (CheckerBoard_init w h s)) p)) mod 2 = 0"
  using CheckerBoard_init_placed_ok [of w h s] by (simp add: placed_ok_def on_black_def)

theorem generated_pieces_on_even_squares_witness:
  "1 \<in> set (pieces (fst (CheckerBoard_init 3 3 empty_store)))
   \<and> (get_y_pos (cells (snd (CheckerBoard_init 3 3 empty_store)) 1)
        + get_x_pos (cells (snd (CheckerBoard_init 3 3 empty_store)) 1)) mod 2 = 0"
proof -
  have mem: "1 \<in> set (pieces (fst (CheckerBoard_init 3 3 empty_store)))"
    by (simp add: board33)
  with generated_pieces_on_even_squares [of 3 3 empty_store] show ?thesis
    by blast
qed

text \<open>
  C1, as the code has it.  The claim says every illegal result is the triple
  \<open>(False, False, None)\<close>.  In a new standard game Red's piece on column 7, row 5
  (object 23) is sent to column 4, row 4 (target 68): a two-column move with Red's own
  piece on column 5, row 5.  The result is illegal and reports a jump.
\<close>

theorem illegal_jump_reports_jump:
  "fst (movement_check (fst new_game) (snd new_game) 23 68) = (False, True, None)"
  by (simp add: new_game_blocked_jump)

text \<open>
  C1, amended.  Whenever \<open>movement_check\<close> returns an illegal result it leaves the store
  as it was, and: if one of the tests before the jumping logic fired, it returns
  \<open>isJump = False\<close> and \<open>jumpedPiece = None\<close>; otherwise the move is classified as a
  jump, a piece of the mover's colour sits on one of the two checked offsets, and it
  returns \<open>isJump = True\<close>.
\<close>

theorem illegal_result_shape:
  assumes "\<not> fst (fst (movement_check self s moving_piece mv))"
  shows "snd (movement_check self s moving_piece mv) = s
   \<and> (if movement_gate_fails self s moving_piece mv
       then fst (snd (fst (movement_check self s moving_piece mv))) = False
            \<and> snd (snd (fst (movement_check self s moving_piece mv))) = None
       else fst (snd (fst (movement_check self s moving_piece mv))) = True
            \<and> (get_x_pos (cells s moving_piece) > drop_bit 4 mv + 1
                 \<or> get_x_pos (cells s moving_piece) < drop_bit 4 mv - 1)
            \<and> (\<exists>p \<in> set (pieces (board self)).
                  ((get_x_pos (cells s p) = drop_bit 4 mv + 1
                      \<and> get_y_pos (cells s p) = (mv AND 15) + 1)
                   \<or> (get_x_pos (cells s p) = drop_bit 4 mv - 1
                      \<and> get_y_pos (cells s p) = (mv AND 15) - 1))
                  \<and> get_color (cells s p) = get_color (cells s moving_piece)))"
proof (cases "movement_gate_fails self s moving_piece mv")
  case True
  then show ?thesis by (simp add: movement_check_gate_fails)
next
  case False
  from assms have jump: "classified_as_jump s moving_piece mv"
    and stop: "\<not> fst (jump_scan s moving_piece mv (pieces (board self)) None)"
    by (simp_all add: movement_check_gates_pass [OF False] split: if_splits)
  from stop have "\<exists>p \<in> set (pieces (board self)).
                  ((get_x_pos (cells s p) = drop_bit 4 mv + 1
                      \<and> get_y_pos (cells s p) = (mv AND 15) + 1)
                   \<or> (get_x_pos (cells s p) = drop_bit 4 mv - 1
                      \<and> get_y_pos (cells s p) = (mv AND 15) - 1))
                  \<and> get_color (cells s p) = get_color (cells s moving_piece)"
    by (simp only: jump_scan_completes_iff not_not)
  with False jump stop show ?thesis
    by (simp add: movement_check_gates_pass [OF False] classified_as_jump_def)
qed

theorem illegal_result_shape_witness:
  "\<not> fst (fst (movement_check (fst new_game) (snd new_game) 23 68))
   \<and> \<not> movement_gate_fails (fst new_game) (snd new_game) 23 68
   \<and> snd (movement_check (fst new_game) (snd new_game) 23 68) = snd new_game
   \<and> fst (snd (fst (movement_check (fst new_game) (snd new_game) 23 68))) = True"
proof -
  have illegal: "\<not> fst (fst (movement_check (fst new_game) (snd new_game) 23 68))"
    by (simp add: new_game_blocked_jump)
  have gates: "\<not> movement_gate_fails (fst new_game) (snd new_game) 23 68"
    by (simp add: new_game_eq eval_defs)
  from illegal_result_shape [OF illegal] gates illegal show ?thesis
    by simp
qed

text \<open>
  C2, on the code.  The claim says that a jump over a piece of the mover's own colour is
  illegal and that executing it removes no piece.  \<open>same_color_jump_illegal\<close> above is the
  first half.  The second half fails two moves into a standard game: Black's object 18
  moves from column 2, row 2 to column 3, row 3; then Red's object 23 on column 7, row 5
  is sent to column 4, row 4.  Red's own object 21 sits on column 5, row 5, so the move is
  illegal, but the scan met Black's object 18 on column 3, row 3 first, and \<open>move\<close>
  removes it from the board although the move was refused.
\<close>

theorem illegal_jump_removes_piece:
  "move (fst new_game) (snd new_game) 18 51 = Inr ((True, False, None), after_opening)
   \<and> get_x_pos (cells (snd after_opening) 21) = drop_bit 4 68 + 1
   \<and> get_y_pos (cells (snd after_opening) 21) = (68 AND 15) + 1
   \<and> get_color (cells (snd after_opening) 21) = get_color (cells (snd after_opening) 23)
   \<and> 18 \<in> set (pieces (board (fst after_opening)))
   \<and> move (fst after_opening) (snd after_opening) 23 68
       = Inr ((False, True, Some 18),
              (fst after_opening)\<lparr>board := (board (fst after_opening))
                 \<lparr>pieces := remove1 18 (pieces (board (fst after_opening)))\<rparr>\<rparr>,
              snd after_opening)"
proof -
  have first: "move (fst new_game) (snd new_game) 18 51 = Inr ((True, False, None), after_opening)"
    by (simp add: opening_move)
  have blocker: "get_x_pos (cells (snd after_opening) 21) = drop_bit 4 68 + 1
   \<and> get_y_pos (cells (snd after_opening) 21) = (68 AND 15) + 1
   \<and> get_color (cells (snd after_opening) 21) = get_color (cells (snd after_opening) 23)
   \<and> 18 \<in> set (pieces (board (fst after_opening)))"
    by (simp add: after_opening_eq new_game_eq get_x_pos_def get_y_pos_def get_color_def)
  have check: "movement_check (fst after_opening) (snd after_opening) 23 68
      = ((False, True, Some 18), snd after_opening)"
    by (simp add: after_opening_eq new_game_eq eval_defs)
  have second: "move (fst after_opening) (snd after_opening) 23 68
       = Inr ((False, True, Some 18),
              (fst after_opening)\<lparr>board := (board (fst after_opening))
                 \<lparr>pieces := remove1 18 (pieces (board (fst after_opening)))\<rparr>\<rparr>,
              snd after_opening)"
    using blocker by (simp add: move_def check remove_piece_def list_remove_def)
  from first blocker second show ?thesis by simp
qed

text \<open>
  C3, as the code has it.  The claim says \<open>isJump\<close> is true exactly when the moving
  piece's column is more than one away from the target column.  In a new standard game
  Black's piece on column 0, row 0 (object 0) is sent to column 2, row 0 (target 32): the
  columns are two apart, but the move fails the diagonal test and \<open>isJump\<close> is false.
\<close>

theorem wide_move_not_classified:
  "fst (snd (fst (movement_check (fst new_game) (snd new_game) 0 32))) = False
   \<and> get_x_pos (cells (snd new_game) 0) < drop_bit 4 32 - 1"
  by (simp add: new_game_eq eval_defs)

text \<open>
  C3, amended.  \<open>movement_check\<close> returns \<open>isJump = True\<close> exactly when none of the tests
  before the jumping logic fires and the moving piece's column is greater than the target
  column plus one or less than the target column minus one.  The rows do not occur in
  the second condition.
\<close>

theorem jump_classification:
  "fst (snd (fst (movement_check self s moving_piece mv))) \<longleftrightarrow>
     \<not> movement_gate_fails self s moving_piece mv
     \<and> (get_x_pos (cells s moving_piece) > drop_bit 4 mv + 1
          \<or> get_x_pos (cells s moving_piece) < drop_bit 4 mv - 1)"
proof (cases "movement_gate_fails self s moving_piece mv")
  case True
  then show ?thesis by (simp add: movement_check_gate_fails)
next
  case False
  then show ?thesis
    by (simp add: movement_check_gates_pass classified_as_jump_def)
qed

theorem jump_classification_witness:
  "\<not> movement_gate_fails (fst (single_piece_game \<lparr>data = 0\<rparr>)) (snd (single_piece_game \<lparr>data = 0\<rparr>)) 0 49
   \<and> get_x_pos (cells (snd (single_piece_game \<lparr>data = 0\<rparr>)) 0) < drop_bit 4 49 - 1
   \<and> get_y_pos (cells (snd (single_piece_game \<lparr>data = 0\<rparr>)) 0) = (49 AND 15) - 1
   \<and> fst (snd (fst (movement_check (fst (single_piece_game \<lparr>data = 0\<rparr>))
                        (snd (single_piece_game \<lparr>data = 0\<rparr>)) 0 49)))"
proof -
  have gates: "\<not> movement_gate_fails (fst (single_piece_game \<lparr>data = 0\<rparr>))
                  (snd (single_piece_game \<lparr>data = 0\<rparr>)) 0 49"
    by (simp add: single_piece_game_def eval_defs)
  have cols: "get_x_pos (cells (snd (single_piece_game \<lparr>data = 0\<rparr>)) 0) < drop_bit 4 49 - 1"
    and rows: "get_y_pos (cells (snd (single_piece_game \<lparr>data = 0\<rparr>)) 0) = (49 AND 15) - 1"
    by (simp_all add: single_piece_game_def eval_defs)
  from gates cols rows
    jump_classification [of "fst (single_piece_game \<lparr>data = 0\<rparr>)"
      "snd (single_piece_game \<lparr>data = 0\<rparr>)" 0 49]
  show ?thesis by blast
qed

text \<open>
  C4.  A piece that is not a king and is Black is refused every move whose target row is
  not greater than its own row; a piece that is not a king and is Red is refused every
  move whose target row is not less than its own row; for a king, legality is decided by
  the range, grid, square colour, diagonal, occupancy and own-colour-jump tests alone,
  none of which compares the two rows for order.
\<close>

theorem forward_direction_gate:
  "(\<not> is_king (cells s moving_piece) \<and> get_color (cells s moving_piece) = ''Black''
      \<and> get_y_pos (cells s moving_piece) \<ge> (mv AND 15)
     \<longrightarrow> \<not> fst (fst (movement_check self s moving_piece mv)))
   \<and> (\<not> is_king (cells s moving_piece) \<and> get_color (cells s moving_piece) = ''Red''
      \<and> get_y_pos (cells s moving_piece) \<le> (mv AND 15)
     \<longrightarrow> \<not> fst (fst (movement_check self s moving_piece mv)))
   \<and> (is_king (cells s moving_piece)
     \<longrightarrow> (fst (fst (movement_check self s moving_piece mv)) \<longleftrightarrow>
            0 \<le> mv \<and> mv \<le> 255
            \<and> drop_bit 4 mv < width (board self) \<and> (mv AND 15) < height (board self)
            \<and> \<not> red_check (mv AND 15) (drop_bit 4 mv)
            \<and> get_x_pos (cells s moving_piece) \<noteq> drop_bit 4 mv
            \<and> get_y_pos (cells s moving_piece) \<noteq> (mv AND 15)
            \<and> \<not> (\<exists>p \<in> set (pieces (board self)).
                    get_x_pos (cells s p) = drop_bit 4 mv \<and> get_y_pos (cells s p) = (mv AND 15))
            \<and> ((get_x_pos (cells s moving_piece) > drop_bit 4 mv + 1
                  \<or> get_x_pos (cells s moving_piece) < drop_bit 4 mv - 1)
                \<longrightarrow> \<not> (\<exists>p \<in> set (pieces (board self)).
                  ((get_x_pos (cells s p) = drop_bit 4 mv + 1
                      \<and> get_y_pos (cells s p) = (mv AND 15) + 1)
                   \<or> (get_x_pos (cells s p) = drop_bit 4 mv - 1
                      \<and> get_y_pos (cells s p) = (mv AND 15) - 1))
                  \<and> get_color (cells s p) = get_color (cells s moving_piece)))))"
proof (intro conjI impI)
  assume "\<not> is_king (cells s moving_piece) \<and> get_color (cells s moving_piece) = ''Black''
      \<and> get_y_pos (cells s moving_piece) \<ge> (mv AND 15)"
  then have "movement_gate_fails self s moving_piece mv"
    unfolding movement_gate_fails_iff by blast
  then show "\<not> fst (fst (movement_check self s moving_piece mv))"
    by (simp add: movement_check_gate_fails)
next
  assume "\<not> is_king (cells s moving_piece) \<and> get_color (cells s moving_piece) = ''Red''
      \<and> get_y_pos (cells s moving_piece) \<le> (mv AND 15)"
  then have "movement_gate_fails self s moving_piece mv"
    unfolding movement_gate_fails_iff by blast
  then show "\<not> fst (fst (movement_check self s moving_piece mv))"
    by (simp add: movement_check_gate_fails)
next
  assume king: "is_king (cells s moving_piece)"
  show "fst (fst (movement_check self s moving_piece mv)) \<longleftrightarrow>
            0 \<le> mv \<and> mv \<le> 255
            \<and> drop_bit 4 mv < width (board self) \<and> (mv AND 15) < height (board self)
            \<and> \<not> red_check (mv AND 15) (drop_bit 4 mv)
            \<and> get_x_pos (cells s moving_piece) \<noteq> drop_bit 4 mv
            \<and> get_y_pos (cells s moving_piece) \<noteq> (mv AND 15)
            \<and> \<not> (\<exists>p \<in> set (pieces (board self)).
                    get_x_pos (cells s p) = drop_bit 4 mv \<and> get_y_pos (cells s p) = (mv AND 15))
            \<and> ((get_x_pos (cells s moving_piece) > drop_bit 4 mv + 1
                  \<or> get_x_pos (cells s moving_piece) < drop_bit 4 mv - 1)
                \<longrightarrow> \<not> (\<exists>p \<in> set (pieces (board self)).
                  ((get_x_pos (cells s p) = drop_bit 4 mv + 1
                      \<and> get_y_pos (cells s p) = (mv AND 15) + 1)
                   \<or> (get_x_pos (cells s p) = drop_bit 4 mv - 1
                      \<and> get_y_pos (cells s p) = (mv AND 15) - 1))
                  \<and> get_color (cells s p) = get_color (cells s moving_piece)))"
  proof (cases "movement_gate_fails self s moving_piece mv")
    case True
    then have "\<not> fst (fst (movement_check self s moving_piece mv))"
      by (simp add: movement_check_gate_fails)
    moreover from True king have "mv < 0 \<or> mv > 255
       \<or> drop_bit 4 mv \<ge> width (board self) \<or> (mv AND 15) \<ge> height (board self)
       \<or> red_check (mv AND 15) (drop_bit 4 mv)
       \<or> get_x_pos (cells s moving_piece) = drop_bit 4 mv
       \<or> get_y_pos (cells s moving_piece) = (mv AND 15)
       \<or> square_occupied s mv (pieces (board self))"
      unfolding movement_gate_fails_iff by blast
    ultimately show ?thesis
      unfolding square_occupied_iff by force
  next
    case False
    then have basic: "0 \<le> mv \<and> mv \<le> 255
            \<and> drop_bit 4 mv < width (board self) \<and> (mv AND 15) < height (board self)
            \<and> \<not> red_check (mv AND 15) (drop_bit 4 mv)
            \<and> get_x_pos (cells s moving_piece) \<noteq> drop_bit 4 mv
            \<and> get_y_pos (cells s moving_piece) \<noteq> (mv AND 15)
            \<and> \<not> (\<exists>p \<in> set (pieces (board self)).
                    get_x_pos (cells s p) = drop_bit 4 mv \<and> get_y_pos (cells s p) = (mv AND 15))"
      unfolding movement_gate_fails_iff square_occupied_iff by force
    have "fst (fst (movement_check self s moving_piece mv)) \<longleftrightarrow>
            (classified_as_jump s moving_piece mv
               \<longrightarrow> fst (jump_scan s moving_piece mv (pieces (board self)) None))"
      by (simp add: movement_check_gates_pass [OF False])
    then show ?thesis
      using basic unfolding jump_scan_completes_iff classified_as_jump_def by blast
  qed
qed

theorem forward_direction_gate_witness:
  "(\<not> is_king (cells (snd new_game) 18) \<and> get_color (cells (snd new_game) 18) = ''Black''
      \<and> get_y_pos (cells (snd new_game) 18) \<ge> (17 AND 15)
      \<and> \<not> fst (fst (movement_check (fst new_game) (snd new_game) 18 17)))
   \<and> (\<not> is_king (cells (snd new_game) 23) \<and> get_color (cells (snd new_game) 23) = ''Red''
      \<and> get_y_pos (cells (snd new_game) 23) \<le> (102 AND 15)
      \<and> \<not> fst (fst (movement_check (fst new_game) (snd new_game) 23 102)))
   \<and> (is_king (cells (snd (single_piece_game \<lparr>data = 546\<rparr>)) 0)
      \<and> get_color (cells (snd (single_piece_game \<lparr>data = 546\<rparr>)) 0) = ''Black''
      \<and> get_y_pos (cells (snd (single_piece_game \<lparr>data = 546\<rparr>)) 0) \<ge> (17 AND 15)
      \<and> fst (fst (movement_check (fst (single_piece_game \<lparr>data = 546\<rparr>))
                    (snd (single_piece_game \<lparr>data = 546\<rparr>)) 0 17)))"
proof -
  let ?k = "single_piece_game \<lparr>data = 546\<rparr>"
  have black: "\<not> is_king (cells (snd new_game) 18) \<and> get_color (cells (snd new_game) 18) = ''Black''
      \<and> get_y_pos (cells (snd new_game) 18) \<ge> (17 AND 15)"
    by (simp add: new_game_eq is_king_def get_color_def get_y_pos_def)
  have red: "\<not> is_king (cells (snd new_game) 23) \<and> get_color (cells (snd new_game) 23) = ''Red''
      \<and> get_y_pos (cells (snd new_game) 23) \<le> (102 AND 15)"
    by (simp add: new_game_eq is_king_def get_color_def get_y_pos_def)
  have king: "is_king (cells (snd ?k) 0)"
    by (simp add: single_piece_game_def is_king_def)
  have bwd: "get_color (cells (snd ?k) 0) = ''Black''
      \<and> get_y_pos (cells (snd ?k) 0) \<ge> (17 AND 15)"
    by (simp add: single_piece_game_def get_color_def get_y_pos_def)
  have rhs: "0 \<le> (17::int) \<and> (17::int) \<le> 255
            \<and> drop_bit 4 17 < width (board (fst ?k)) \<and> (17 AND 15) < height (board (fst ?k))
            \<and> \<not> red_check (17 AND 15) (drop_bit 4 17)
            \<and> get_x_pos (cells (snd ?k) 0) \<noteq> drop_bit 4 17
            \<and> get_y_pos (cells (snd ?k) 0) \<noteq> (17 AND 15)
            \<and> \<not> (\<exists>p \<in> set (pieces (board (fst ?k))).
                    get_x_pos (cells (snd ?k) p) = drop_bit 4 17 \<and> get_y_pos (cells (snd ?k) p) = (17 AND 15))
            \<and> ((get_x_pos (cells (snd ?k) 0) > drop_bit 4 17 + 1
                  \<or> get_x_pos (cells (snd ?k) 0) < drop_bit 4 17 - 1)
                \<longrightarrow> \<not> (\<exists>p \<in> set (pieces (board (fst ?k))).
                  ((get_x_pos (cells (snd ?k) p) = drop_bit 4 17 + 1
                      \<and> get_y_pos (cells (snd ?k) p) = (17 AND 15) + 1)
                   \<or> (get_x_pos (cells (snd ?k) p) = drop_bit 4 17 - 1
                      \<and> get_y_pos (cells (snd ?k) p) = (17 AND 15) - 1))
                  \<and> get_color (cells (snd ?k) p) = get_color (cells (snd ?k) 0)))"
    by (simp add: single_piece_game_def red_check_def get_x_pos_def get_y_pos_def)
  note b = forward_direction_gate [of "snd new_game" 18 17 "fst new_game",
      THEN conjunct1, THEN mp, OF black]
  note r = forward_direction_gate [of "snd new_game" 23 102 "fst new_game",
      THEN conjunct2, THEN conjunct1, THEN mp, OF red]
  note k = forward_direction_gate [of "snd ?k" 0 17 "fst ?k",
      THEN conjunct2, THEN conjunct2, THEN mp, OF king, THEN iffD2, OF rhs]
  show ?thesis
    by (intro conjI b r k king black [THEN conjunct1] black [THEN conjunct2, THEN conjunct1]
        black [THEN conjunct2, THEN conjunct2] red [THEN conjunct1]
        red [THEN conjunct2, THEN conjunct1] red [THEN conjunct2, THEN conjunct2]
        bwd [THEN conjunct1] bwd [THEN conjunct2])
qed

text \<open>
  C10.  A move that passes every test before the jumping logic, is classified as a jump,
  and has no piece of either colour on the two checked offsets is returned as
  \<open>(True, True, None)\<close>: a jump need not pass over any piece.
\<close>

theorem capture_free_jump_accepted:
  assumes "\<not> movement_gate_fails self s moving_piece mv"
    and "get_x_pos (cells s moving_piece) > drop_bit 4 mv + 1
         \<or> get_x_pos (cells s moving_piece) < drop_bit 4 mv - 1"
    and "\<forall>p \<in> set (pieces (board self)).
           \<not> (get_x_pos (cells s p) = drop_bit 4 mv + 1 \<and> get_y_pos (cells s p) = (mv AND 15) + 1)
           \<and> \<not> (get_x_pos (cells s p) = drop_bit 4 mv - 1 \<and> get_y_pos (cells s p) = (mv AND 15) - 1)"
  shows "fst (movement_check self s moving_piece mv) = (True, True, None)"
  using assms
  by (simp add: movement_check_gates_pass classified_as_jump_def jump_scan_no_candidate)

theorem capture_free_jump_accepted_witness:
  "fst (movement_check (fst (single_piece_game \<lparr>data = 0\<rparr>))
          (snd (single_piece_game \<lparr>data = 0\<rparr>)) 0 34) = (True, True, None)
   \<and> pieces (board (fst (single_piece_game \<lparr>data = 0\<rparr>))) = [0]
   \<and> get_x_pos (cells (snd (single_piece_game \<lparr>data = 0\<rparr>)) 0) = 0
   \<and> get_y_pos (cells (snd (single_piece_game \<lparr>data = 0\<rparr>)) 0) = 0
   \<and> drop_bit 4 (34::int) = 2 \<and> (34::int) AND 15 = 2"
proof -
  let ?g = "single_piece_game \<lparr>data = 0\<rparr>"
  have gates: "\<not> movement_gate_fails (fst ?g) (snd ?g) 0 34"
    by (simp add: single_piece_game_def eval_defs)
  have cols: "get_x_pos (cells (snd ?g) 0) > drop_bit 4 34 + 1
         \<or> get_x_pos (cells (snd ?g) 0) < drop_bit 4 34 - 1"
    by (simp add: single_piece_game_def eval_defs)
  have free: "\<forall>p \<in> set (pieces (board (fst ?g))).
           \<not> (get_x_pos (cells (snd ?g) p) = drop_bit 4 34 + 1 \<and> get_y_pos (cells (snd ?g) p) = (34 AND 15) + 1)
           \<and> \<not> (get_x_pos (cells (snd ?g) p) = drop_bit 4 34 - 1 \<and> get_y_pos (cells (snd ?g) p) = (34 AND 15) - 1)"
    by (simp add: single_piece_game_def eval_defs)
  have "fst (movement_check (fst ?g) (snd ?g) 0 34) = (True, True, None)"
    by (rule capture_free_jump_accepted [OF gates cols free])
  then show ?thesis
    by (simp add: single_piece_game_def get_x_pos_def get_y_pos_def)
qed

text \<open>
  C8.  When \<open>move\<close> executes a legal move, the moving piece's column and row become the
  target's column and row; its king flag is the one \<open>movement_check\<close> left (the old flag,
  or set by the promotion just applied); its colour, and every bit of the code from
  bit 8 upwards, is unchanged by the position update.
\<close>

theorem move_updates_position:
  assumes "move self s moving_piece mv = Inr ((True, was_jump, jumped_piece), self', s')"
  shows "get_x_pos (cells s' moving_piece) = drop_bit 4 mv
   \<and> get_y_pos (cells s' moving_piece) = (mv AND 15)
   \<and> is_king (cells s' moving_piece)
        = is_king (cells (snd (movement_check self s moving_piece mv)) moving_piece)
   \<and> is_king (cells s' moving_piece)
        = (is_king (cells s moving_piece)
           \<or> (if get_color (cells s moving_piece) = ''Red'' then (mv AND 15) = 0
               else (mv AND 15) = height (board self) - 1))
   \<and> get_color (cells s' moving_piece) = get_color (cells s moving_piece)
   \<and> drop_bit 8 (data (cells s' moving_piece))
        = drop_bit 8 (data (cells (snd (movement_check self s moving_piece mv)) moving_piece))"
proof -
  obtain l j jp s1 where mc: "movement_check self s moving_piece mv = ((l, j, jp), s1)"
    by (metis prod.exhaust)
  from assms have l: "l"
    by (auto simp add: move_def mc Let_def split: if_splits sum.splits)
  then have range: "0 \<le> mv \<and> mv \<le> 255"
    using movement_check_legal_range [of self s moving_piece mv] mc by simp
  then have byte: "take_bit 8 mv = mv" by (intro byte_id) simp_all
  have gates: "\<not> movement_gate_fails self s moving_piece mv"
    using l mc by (auto simp add: movement_check_gate_fails)
  have s1: "s1 = promote self moving_piece mv s"
    using l mc by (simp add: movement_check_gates_pass [OF gates] split: if_splits)
  define d1 where "d1 = data (cells s1 moving_piece)"
  have s': "s' = set_data moving_piece (push_bit 8 (drop_bit 8 d1) OR take_bit 8 mv) s1"
    using assms l by (auto simp add: move_def mc Let_def d1_def byte split: if_splits sum.splits)
  have d': "data (cells s' moving_piece) = push_bit 8 (drop_bit 8 d1) OR take_bit 8 mv"
    by (simp add: s' set_data_def)
  have d1: "d1 = (if (if get_color (cells s moving_piece) = ''Red'' then (mv AND 15) = 0
          else (mv AND 15) = height (board self) - 1)
      then data (cells s moving_piece) OR 512 else data (cells s moving_piece))"
    by (simp only: d1_def s1 promote_data)
  have "get_x_pos (cells s' moving_piece) = drop_bit 4 (take_bit 8 mv)"
    by (simp only: get_x_pos_bits d' moved_col)
  then have x: "get_x_pos (cells s' moving_piece) = drop_bit 4 mv"
    by (simp only: byte)
  have y: "get_y_pos (cells s' moving_piece) = (mv AND 15)"
    by (simp only: get_y_pos_bits d' moved_row row_bits)
  have k1: "is_king (cells s' moving_piece) = bit d1 9"
    by (simp only: is_king_bit d' moved_king)
  have k2: "is_king (cells (snd (movement_check self s moving_piece mv)) moving_piece) = bit d1 9"
    by (simp add: mc is_king_bit d1_def)
  have k3: "bit d1 9 = (is_king (cells s moving_piece)
           \<or> (if get_color (cells s moving_piece) = ''Red'' then (mv AND 15) = 0
               else (mv AND 15) = height (board self) - 1))"
    by (simp add: d1 is_king_bit promoted_king)
  have c1: "get_color (cells s' moving_piece) = (if bit d1 8 then ''Red'' else ''Black'')"
    by (simp only: get_color_bit d' moved_color)
  have c2: "bit d1 8 = bit (data (cells s moving_piece)) 8"
    by (simp add: d1 promoted_color)
  have hi: "drop_bit 8 (data (cells s' moving_piece)) = drop_bit 8 d1"
    by (simp only: d' moved_high)
  show ?thesis
    using x y k1 k2 k3 c1 c2 hi by (simp add: get_color_bit mc d1_def)
qed

theorem move_updates_position_witness:
  "move (fst (single_piece_game \<lparr>data = 273\<rparr>)) (snd (single_piece_game \<lparr>data = 273\<rparr>)) 0 0
     = Inr ((True, False, None), fst (single_piece_game \<lparr>data = 273\<rparr>),
            snd (single_piece_game \<lparr>data = 768\<rparr>))
   \<and> get_x_pos (cells (snd (single_piece_game \<lparr>data = 768\<rparr>)) 0) = drop_bit 4 0
   \<and> get_y_pos (cells (snd (single_piece_game \<lparr>data = 768\<rparr>)) 0) = (0 AND 15)
   \<and> get_color (cells (snd (single_piece_game \<lparr>data = 768\<rparr>)) 0)
        = get_color (cells (snd (single_piece_game \<lparr>data = 273\<rparr>)) 0)"
proof -
  let ?g = "single_piece_game \<lparr>data = 273\<rparr>"
  let ?h = "single_piece_game \<lparr>data = 768\<rparr>"
  have run: "move (fst ?g) (snd ?g) 0 0 = Inr ((True, False, None), fst ?g, snd ?h)"
    by (simp add: single_piece_game_def move_def eval_defs)
  from move_updates_position [OF run] run show ?thesis
    by blast
qed

text \<open>
  C6.  Generating a board of width 8 and height 8, from any store, yields 12 Black and
  12 Red pieces, all distinct objects, every one on a square whose row plus column is
  even, and none on row 3 or row 4.
\<close>

theorem standard_board_generation:
  "length (filter (\<lambda>p. get_color (cells (snd (CheckerBoard_init 8 8 s)) p) = ''Black'')
             (pieces (fst (CheckerBoard_init 8 8 s)))) = 12
   \<and> length (filter (\<lambda>p. get_color (cells (snd (CheckerBoard_init 8 8 s)) p) = ''Red'')
             (pieces (fst (CheckerBoard_init 8 8 s)))) = 12
   \<and> list_all (\<lambda>p. (get_y_pos (cells (snd (CheckerBoard_init 8 8 s)) p)
                      + get_x_pos (cells (snd (CheckerBoard_init 8 8 s)) p)) mod 2 = 0)
        (pieces (fst (CheckerBoard_init 8 8 s)))
   \<and> list_all (\<lambda>p. get_y_pos (cells (snd (CheckerBoard_init 8 8 s)) p) \<noteq> 3
                   \<and> get_y_pos (cells (snd (CheckerBoard_init 8 8 s)) p) \<noteq> 4)
        (pieces (fst (CheckerBoard_init 8 8 s)))
   \<and> distinct (pieces (fst (CheckerBoard_init 8 8 s)))"
proof -
  let ?st = "snd (CheckerBoard_init 8 8 s)"
  let ?ps = "pieces (fst (CheckerBoard_init 8 8 s))"
  have count: "length (filter (\<lambda>p. Q (cells ?st p)) ?ps) = length (filter Q (map (cells ?st) ?ps))"
    for Q
    by (simp add: filter_map comp_def)
  have every: "list_all (\<lambda>p. Q (cells ?st p)) ?ps = list_all Q (map (cells ?st) ?ps)" for Q
    by (simp add: list_all_iff)
  have "length (filter (\<lambda>c. get_color c = ''Black'') (map (cells ?st) ?ps)) = 12"
    unfolding board88_objects by (simp add: Checker.make_def get_color_def)
  then have black: "length (filter (\<lambda>p. get_color (cells ?st p) = ''Black'') ?ps) = 12"
    by (simp only: count [of "\<lambda>c. get_color c = ''Black''"])
  have "length (filter (\<lambda>c. get_color c = ''Red'') (map (cells ?st) ?ps)) = 12"
    unfolding board88_objects by (simp add: Checker.make_def get_color_def)
  then have red: "length (filter (\<lambda>p. get_color (cells ?st p) = ''Red'') ?ps) = 12"
    by (simp only: count [of "\<lambda>c. get_color c = ''Red''"])
  have "list_all (\<lambda>c. (get_y_pos c + get_x_pos c) mod 2 = 0) (map (cells ?st) ?ps)"
    unfolding board88_objects by (simp add: Checker.make_def get_x_pos_def get_y_pos_def)
  then have playable:
    "list_all (\<lambda>p. (get_y_pos (cells ?st p) + get_x_pos (cells ?st p)) mod 2 = 0) ?ps"
    by (simp only: every [of "\<lambda>c. (get_y_pos c + get_x_pos c) mod 2 = 0"])
  have "list_all (\<lambda>c. get_y_pos c \<noteq> 3 \<and> get_y_pos c \<noteq> 4) (map (cells ?st) ?ps)"
    unfolding board88_objects by (simp add: Checker.make_def get_y_pos_def)
  then have rows:
    "list_all (\<lambda>p. get_y_pos (cells ?st p) \<noteq> 3 \<and> get_y_pos (cells ?st p) \<noteq> 4) ?ps"
    by (simp only: every [of "\<lambda>c. get_y_pos c \<noteq> 3 \<and> get_y_pos c \<noteq> 4"])
  have "distinct ?ps"
    unfolding board88_pieces by (simp add: distinct_map inj_on_def)
  with black red playable rows show ?thesis by simp
qed

end
